theory Spec2Isabelle
  imports Main "HOL-Library.Word" "HOL-Library.Sublist"
begin

section \<open>Python values used by the scheduling core of app.py\<close>

text \<open>
  The exceptions the modelled code can raise. \<open>ValueError\<close> comes from \<open>int()\<close>,
  \<open>time()\<close>, tuple unpacking and \<open>strptime\<close>; \<open>OverflowError\<close> from
  \<open>timedelta(minutes=...)\<close> and from \<open>datetime\<close> arithmetic leaving the range
  0001-01-01 .. 9999-12-31.
\<close>

datatype error = ValueError | OverflowError

text \<open>
  A \<open>date\<close> is its proleptic Gregorian ordinal (\<open>date.toordinal()\<close>, 1 = 0001-01-01,
  3652059 = 9999-12-31). A \<open>time\<close> carries hour and minute (seconds and microseconds are
  0 wherever the code builds one). A naive \<open>datetime\<close> is the number of microseconds
  since the midnight that starts ordinal 0, so that Python's comparison of datetimes is
  the order of \<open>int\<close>; a \<open>timedelta\<close> is a number of microseconds.
\<close>

type_synonym date = int
type_synonym datetime = int
type_synonym timedelta = int

datatype time = Time (hour: int) (minute: int)

definition MINUTE_US :: int where
  "MINUTE_US = 60000000"

definition DAY_US :: int where
  "DAY_US = 86400000000"

definition MAXORDINAL :: int where
  "MAXORDINAL = 3652059"

definition isoweekday :: "date \<Rightarrow> int" where
  \<comment> \<open>\<open>self.toordinal() % 7 or 7\<close>\<close>
  "isoweekday d = (if d mod 7 = 0 then 7 else d mod 7)"

definition combine :: "date \<Rightarrow> time \<Rightarrow> datetime" where
  \<comment> \<open>\<open>datetime.combine(date_obj, t)\<close>\<close>
  "combine d t = d * DAY_US + (hour t * 60 + minute t) * MINUTE_US"

definition date_of :: "datetime \<Rightarrow> date" where
  \<comment> \<open>\<open>dt.date()\<close>\<close>
  "date_of dt = dt div DAY_US"

definition timedelta_minutes :: "int \<Rightarrow> error + timedelta" where
  \<comment> \<open>\<open>timedelta(minutes=n)\<close>: the normalised day count must lie within
      \<open>\<plusminus>999999999\<close>, else OverflowError\<close>
  "timedelta_minutes n =
     (let us = n * MINUTE_US in
      if - 999999999 \<le> us div DAY_US \<and> us div DAY_US \<le> 999999999
      then Inr us else Inl OverflowError)"

definition dt_add :: "datetime \<Rightarrow> timedelta \<Rightarrow> error + datetime" where
  \<comment> \<open>\<open>dt + td\<close>: OverflowError when the result is not a representable datetime\<close>
  "dt_add dt td =
     (let r = dt + td in
      if DAY_US \<le> r \<and> r < (MAXORDINAL + 1) * DAY_US then Inr r else Inl OverflowError)"

definition dt_sub :: "datetime \<Rightarrow> timedelta \<Rightarrow> error + datetime" where
  \<comment> \<open>\<open>dt - td\<close>\<close>
  "dt_sub dt td = dt_add dt (- td)"

subsection \<open>Strings\<close>

text \<open>
  A Python \<open>str\<close> is modelled as a list of 8-bit characters read as code points
  0..255. \<open>is_space\<close> is \<open>str.isspace\<close> on that range, which is what
  \<open>str.strip()\<close> removes. \<open>int()\<close> removes fewer characters: it does not take the
  separators 28..31 for whitespace, and \<open>is_int_space\<close> is its set.
\<close>

definition is_space :: "char \<Rightarrow> bool" where
  "is_space c =
     (let n = (of_char c :: nat) in
      (9 \<le> n \<and> n \<le> 13) \<or> (28 \<le> n \<and> n \<le> 32) \<or> n = 133 \<or> n = 160)"

definition is_int_space :: "char \<Rightarrow> bool" where
  "is_int_space c =
     (let n = (of_char c :: nat) in
      (9 \<le> n \<and> n \<le> 13) \<or> n = 32 \<or> n = 133 \<or> n = 160)"

definition strip :: "string \<Rightarrow> string" where
  "strip s = rev (dropWhile is_space (rev (dropWhile is_space s)))"

definition digit_of :: "char \<Rightarrow> int option" where
  "digit_of c =
     (let n = (of_char c :: nat) in
      if 48 \<le> n \<and> n \<le> 57 then Some (int n - 48) else None)"

text \<open>\<open>s.split(sep)\<close> for a one-character separator.\<close>

fun split_on :: "char \<Rightarrow> string \<Rightarrow> string list" where
  "split_on sep [] = [[]]"
| "split_on sep (x # xs) =
     (if x = sep then [] # split_on sep xs
      else (case split_on sep xs of
              [] \<Rightarrow> [[x]]
            | p # ps \<Rightarrow> (x # p) # ps))"

text \<open>
  \<open>int(s)\<close> for a string, base 10: surrounding whitespace (\<open>is_int_space\<close>) is
  dropped, one sign is allowed, then digits, where single underscores may stand between
  digits. More than \<open>INT_MAX_STR_DIGITS\<close> digits are refused with a ValueError (the
  default of \<open>sys.set_int_max_str_digits\<close>; leading zeros count, underscores do not).
  \<open>int_digits\<close> reads what follows a digit already consumed.
\<close>

definition INT_MAX_STR_DIGITS :: nat where
  "INT_MAX_STR_DIGITS = 4300"

fun int_digits :: "string \<Rightarrow> int \<Rightarrow> int option" where
  "int_digits [] acc = Some acc"
| "int_digits [c] acc =
     (case digit_of c of None \<Rightarrow> None | Some v \<Rightarrow> Some (10 * acc + v))"
| "int_digits (c # d # ds) acc =
     (if c = CHR ''_''
      then (case digit_of d of None \<Rightarrow> None | Some v \<Rightarrow> int_digits ds (10 * acc + v))
      else (case digit_of c of None \<Rightarrow> None | Some v \<Rightarrow> int_digits (d # ds) (10 * acc + v)))"

definition py_int :: "string \<Rightarrow> error + int" where
  "py_int s =
     (case rev (dropWhile is_int_space (rev (dropWhile is_int_space s))) of
        [] \<Rightarrow> Inl ValueError
      | c # cs \<Rightarrow>
          (let neg = (c = CHR ''-'');
               body = (if c = CHR ''-'' \<or> c = CHR ''+'' then cs else c # cs)
           in if INT_MAX_STR_DIGITS < length (filter (\<lambda>x. digit_of x \<noteq> None) body)
              then Inl ValueError
              else
                (case body of
                   [] \<Rightarrow> Inl ValueError
                 | d # ds \<Rightarrow>
                     (case digit_of d of
                        None \<Rightarrow> Inl ValueError
                      | Some v \<Rightarrow>
                          (case int_digits ds v of
                             None \<Rightarrow> Inl ValueError
                           | Some n \<Rightarrow> Inr (if neg then - n else n))))))"

definition py_time :: "int \<Rightarrow> int \<Rightarrow> error + time" where
  \<comment> \<open>\<open>time(h, m)\<close>: hour in 0..23 and minute in 0..59, else an exception\<close>
  "py_time h m =
     (if 0 \<le> h \<and> h \<le> 23 \<and> 0 \<le> m \<and> m \<le> 59 then Inr (Time h m) else Inl ValueError)"

text \<open>
  \<^verbatim>\<open>
  def to_time(hhmm):
      s = str(hhmm).strip()
      if not s or ":" not in s:
          return None
      try:
          hh, mm = s.split(":")[:2]
          return time(int(hh), int(mm))
      except Exception:
          return None
  \<close>
  Every exception of the \<open>try\<close> block is caught, so the result is an option.
\<close>

definition to_time :: "string \<Rightarrow> time option" where
  "to_time hhmm =
     (let s = strip hhmm in
      if s = [] \<or> CHR '':'' \<notin> set s then None
      else (case take 2 (split_on CHR '':'' s) of
              [hh, mm] \<Rightarrow>
                (case py_int hh of
                   Inl e \<Rightarrow> None
                 | Inr h \<Rightarrow>
                     (case py_int mm of
                        Inl e \<Rightarrow> None
                      | Inr m \<Rightarrow>
                          (case py_time h m of Inl e \<Rightarrow> None | Inr t \<Rightarrow> Some t)))
            | _ \<Rightarrow> None))"

text \<open>
  \<open>datetime.strptime(s, "%H:%M").time()\<close>. The format compiles to the regular expression
  \<^verbatim>\<open>(?P<H>2[0-3]|[0-1]\d|\d):(?P<M>[0-5]\d|\d)\<close>, matched at the start of \<open>s\<close>; text
  left over after the match is a ValueError ("unconverted data remains"), as is no
  match. \<open>match_H\<close> and \<open>match_M\<close> list the ways the group can match, in the order
  the alternatives are tried, each with the rest of the input.
\<close>

definition match_H :: "string \<Rightarrow> (int \<times> string) list" where
  "match_H s =
     (case s of
        [] \<Rightarrow> []
      | a # r \<Rightarrow>
          (case digit_of a of
             None \<Rightarrow> []
           | Some x \<Rightarrow>
               (case r of
                  [] \<Rightarrow> []
                | b # r' \<Rightarrow>
                    (case digit_of b of
                       None \<Rightarrow> []
                     | Some y \<Rightarrow>
                         (if x = 2 \<and> y \<le> 3 then [(20 + y, r')] else []) @
                         (if x \<le> 1 then [(10 * x + y, r')] else [])))
               @ [(x, r)]))"

definition match_M :: "string \<Rightarrow> (int \<times> string) list" where
  "match_M s =
     (case s of
        [] \<Rightarrow> []
      | a # r \<Rightarrow>
          (case digit_of a of
             None \<Rightarrow> []
           | Some x \<Rightarrow>
               (case r of
                  [] \<Rightarrow> []
                | b # r' \<Rightarrow>
                    (case digit_of b of
                       None \<Rightarrow> []
                     | Some y \<Rightarrow> (if x \<le> 5 then [(10 * x + y, r')] else [])))
               @ [(x, r)]))"

definition match_colon :: "string \<Rightarrow> string list" where
  "match_colon s = (case s of [] \<Rightarrow> [] | c # r \<Rightarrow> if c = CHR '':'' then [r] else [])"

definition strptime_HM :: "string \<Rightarrow> error + time" where
  "strptime_HM s =
     (case concat (map (\<lambda>(h, r1).
             concat (map (\<lambda>r2. map (\<lambda>(m, r3). (h, m, r3)) (match_M r2)) (match_colon r1)))
           (match_H s)) of
        [] \<Rightarrow> Inl ValueError
      | (h, m, rest) # _ \<Rightarrow> if rest = [] then Inr (Time h m) else Inl ValueError)"

section \<open>Data consumed by the core\<close>

text \<open>
  A row of the catalog \<open>servicios\<close>. \<open>db_get_servicios\<close> converts the columns
  \<open>duracion_min\<close> and \<open>precio\<close> with \<open>.astype(int)\<close>, NumPy's 64-bit signed integer,
  so a column sum is computed in 64-bit two's complement.
\<close>

record servicio =
  tipo :: string
  zona :: string
  duracion_min :: "64 word"
  precio :: "64 word"

text \<open>
  A row of \<open>turnos\<close>. \<open>fecha\<close> is a date, or nothing where \<open>db_get_turnos\<close> could
  not convert it; \<open>inicio\<close> and \<open>fin\<close> are the cells as \<open>str()\<close> renders them.
\<close>

record turno =
  fecha :: "date option"
  estado :: string
  inicio :: string
  fin :: string

section \<open>Configuration\<close>


definition BUFFER_MIN_DEFAULT :: int where
  "BUFFER_MIN_DEFAULT = 5"

type_synonym disponibilidad = "int \<rightharpoonup> (string \<times> string) list"

definition DEFAULT_DISPONIBILIDAD_CODE :: disponibilidad where
  "DEFAULT_DISPONIBILIDAD_CODE = map_of
     [(1, [(''09:00'', ''13:00''), (''14:00'', ''17:00'')]),
      (2, [(''09:00'', ''17:00'')]),
      (3, [(''09:00'', ''17:00'')]),
      (4, [(''09:00'', ''17:00'')]),
      (5, [(''09:00'', ''15:00'')]),
      (6, [(''09:00'', ''15:00'')])]"

text \<open>
  The lookup of a weekday's windows, \<open>DEFAULT_DISPONIBILIDAD_CODE.get(weekday, [])\<close> in
  \<open>generar_slots\<close>, over any table.
\<close>

definition windowsFor :: "disponibilidad \<Rightarrow> int \<Rightarrow> (string \<times> string) list" where
  "windowsFor cfg weekday = (case cfg weekday of None \<Rightarrow> [] | Some tramos \<Rightarrow> tramos)"

section \<open>Business logic\<close>

definition overlaps :: "int \<Rightarrow> int \<Rightarrow> int \<Rightarrow> int \<Rightarrow> bool" where
  "overlaps start1 end1 start2 end2 = (start1 < end2 \<and> start2 < end1)"

text \<open>
  \<^verbatim>\<open>
  def calc_duracion(servicios_df, tipo, zonas):
      if servicios_df.empty:
          return 0
      sel = servicios_df[(servicios_df["tipo"] == tipo) & (servicios_df["zona"].isin(zonas))]
      return int(sel["duracion_min"].sum()) if not sel.empty else 0
  \<close>
\<close>

definition calc_duracion :: "servicio list \<Rightarrow> string \<Rightarrow> string list \<Rightarrow> int" where
  "calc_duracion servicios_df tp zonas =
     (if servicios_df = [] then 0
      else (let sel = filter (\<lambda>r. tipo r = tp \<and> zona r \<in> set zonas) servicios_df
            in if sel \<noteq> [] then sint (sum_list (map duracion_min sel)) else 0))"

definition calc_precio :: "servicio list \<Rightarrow> string \<Rightarrow> string list \<Rightarrow> int" where
  "calc_precio servicios_df tp zonas =
     (if servicios_df = [] then 0
      else (let sel = filter (\<lambda>r. tipo r = tp \<and> zona r \<in> set zonas) servicios_df
            in if sel \<noteq> [] then sint (sum_list (map precio sel)) else 0))"

text \<open>
  The inner loop of \<open>generar_slots\<close> over the active appointments, for one candidate:
  \<^verbatim>\<open>
  ok = True
  if not activos.empty:
      for _, t in activos.iterrows():
          try:
              t_start = datetime.combine(date_obj, datetime.strptime(str(t["inicio"]), "%H:%M").time())
              t_end = datetime.combine(date_obj, datetime.strptime(str(t["fin"]), "%H:%M").time())
          except Exception:
              continue
          if overlaps(c_start - buff, c_end + buff, t_start, t_end):
              ok = False
              break
  \<close>
  The subtraction and the addition stand outside the \<open>try\<close>: their OverflowError
  leaves \<open>generar_slots\<close>.
\<close>

fun candidate_ok ::
  "timedelta \<Rightarrow> date \<Rightarrow> datetime \<Rightarrow> datetime \<Rightarrow> turno list \<Rightarrow> error + bool" where
  "candidate_ok buff date_obj c_start c_end [] = Inr True"
| "candidate_ok buff date_obj c_start c_end (t # ts) =
     (case strptime_HM (inicio t) of
        Inl e \<Rightarrow> candidate_ok buff date_obj c_start c_end ts
      | Inr t0 \<Rightarrow>
          (case strptime_HM (fin t) of
             Inl e \<Rightarrow> candidate_ok buff date_obj c_start c_end ts
           | Inr t1 \<Rightarrow>
               (case dt_sub c_start buff of
                  Inl e \<Rightarrow> Inl e
                | Inr a \<Rightarrow>
                    (case dt_add c_end buff of
                       Inl e \<Rightarrow> Inl e
                     | Inr b \<Rightarrow>
                         if overlaps a b (combine date_obj t0) (combine date_obj t1)
                         then Inr False
                         else candidate_ok buff date_obj c_start c_end ts))))"

text \<open>
  The \<open>while\<close> loop over the candidates of one window:
  \<^verbatim>\<open>
  while current + dur <= end_window:
      c_start, c_end = current, current + dur
      ...
      if ok:
          result.append(c_start)
      current += step
  \<close>
  It need not end (\<open>step\<close> may be 0), so the result is an option: \<open>None\<close> when the
  loop runs forever, \<open>Some (Inl e)\<close> when it raises, \<open>Some (Inr result)\<close> when it ends.
\<close>

partial_function (option) slot_loop ::
  "timedelta \<Rightarrow> date \<Rightarrow> timedelta \<Rightarrow> timedelta \<Rightarrow> turno list \<Rightarrow> datetime \<Rightarrow>
   datetime \<Rightarrow> datetime list \<Rightarrow> (error + datetime list) option" where
  "slot_loop buff date_obj dur step activos end_window current result =
     (case dt_add current dur of
        Inl e \<Rightarrow> Some (Inl e)
      | Inr c_end \<Rightarrow>
          if c_end \<le> end_window then
            (case candidate_ok buff date_obj current c_end activos of
               Inl e \<Rightarrow> Some (Inl e)
             | Inr ok \<Rightarrow>
                 (case dt_add current step of
                    Inl e \<Rightarrow> Some (Inl e)
                  | Inr nxt \<Rightarrow>
                      slot_loop buff date_obj dur step activos end_window nxt
                        (if ok then result @ [current] else result)))
          else Some (Inr result))"

text \<open>
  The \<open>for\<close> loop over the windows of the day:
  \<^verbatim>\<open>
  for (ini, fin) in tramos:
      ti, tf = to_time(ini), to_time(fin)
      if not ti or not tf:
          continue
      start_dt = datetime.combine(date_obj, ti)
      end_window = datetime.combine(date_obj, tf)
      current = start_dt
      while ...
  \<close>
  A \<open>time\<close> object is always true, so the test only rejects \<open>None\<close>.
\<close>

fun tramos_loop ::
  "timedelta \<Rightarrow> date \<Rightarrow> timedelta \<Rightarrow> timedelta \<Rightarrow> turno list \<Rightarrow>
   (string \<times> string) list \<Rightarrow> datetime list \<Rightarrow> (error + datetime list) option" where
  "tramos_loop buff date_obj dur step activos [] result = Some (Inr result)"
| "tramos_loop buff date_obj dur step activos ((ini, fn) # tramos) result =
     (case to_time ini of
        None \<Rightarrow> tramos_loop buff date_obj dur step activos tramos result
      | Some ti \<Rightarrow>
          (case to_time fn of
             None \<Rightarrow> tramos_loop buff date_obj dur step activos tramos result
           | Some tf \<Rightarrow>
               (case slot_loop buff date_obj dur step activos
                       (combine date_obj tf) (combine date_obj ti) result of
                  None \<Rightarrow> None
                | Some (Inl e) \<Rightarrow> Some (Inl e)
                | Some (Inr result') \<Rightarrow>
                    tramos_loop buff date_obj dur step activos tramos result')))"

text \<open>
  \<^verbatim>\<open>
  seen = {}
  return [seen.setdefault(x, x) for x in result if x not in seen]
  \<close>
  keeps the first occurrence of every element.
\<close>

fun dedup :: "'a set \<Rightarrow> 'a list \<Rightarrow> 'a list" where
  "dedup seen [] = []"
| "dedup seen (x # xs) = (if x \<in> seen then dedup seen xs else x # dedup (insert x seen) xs)"

text \<open>
  The rows that occupy time on \<open>date_obj\<close>:
  \<^verbatim>\<open>
  activos = pd.DataFrame()
  if not turnos_df.empty:
      activos = turnos_df[(turnos_df["fecha"] == date_obj) &
                          (~turnos_df["estado"].isin(["Cancelado"]))].copy()
  \<close>
\<close>

definition activos_of :: "date \<Rightarrow> turno list \<Rightarrow> turno list" where
  "activos_of date_obj turnos_df =
     (if turnos_df \<noteq> []
      then filter (\<lambda>t. fecha t = Some date_obj \<and> estado t \<notin> set [''Cancelado'']) turnos_df
      else [])"

text \<open>
  \<open>generar_slots\<close>, with the two module constants it reads (the weekly table and the
  buffer) as parameters; \<open>generar_slots\<close> itself fixes them.
\<close>

definition generar_slots_with ::
  "disponibilidad \<Rightarrow> int \<Rightarrow> date \<Rightarrow> int \<Rightarrow> turno list \<Rightarrow> int \<Rightarrow>
   (error + datetime list) option" where
  "generar_slots_with cfg buffer_min date_obj dur_min turnos_df slot_step_min =
     (if dur_min \<le> 0 then Some (Inr [])
      else
        (let weekday = isoweekday date_obj;
             tramos = windowsFor cfg weekday
         in if tramos = [] then Some (Inr [])
            else
              (let activos = activos_of date_obj turnos_df
               in case timedelta_minutes slot_step_min of
                    Inl e \<Rightarrow> Some (Inl e)
                  | Inr step \<Rightarrow>
                      (case timedelta_minutes dur_min of
                         Inl e \<Rightarrow> Some (Inl e)
                       | Inr dur \<Rightarrow>
                           (case timedelta_minutes buffer_min of
                              Inl e \<Rightarrow> Some (Inl e)
                            | Inr buff \<Rightarrow>
                                (case tramos_loop buff date_obj dur step activos tramos [] of
                                   None \<Rightarrow> None
                                 | Some (Inl e) \<Rightarrow> Some (Inl e)
                                 | Some (Inr result) \<Rightarrow> Some (Inr (dedup {} result))))))))"

definition generar_slots ::
  "date \<Rightarrow> int \<Rightarrow> turno list \<Rightarrow> int \<Rightarrow> (error + datetime list) option" where
  "generar_slots date_obj dur_min turnos_df slot_step_min =
     generar_slots_with DEFAULT_DISPONIBILIDAD_CODE BUFFER_MIN_DEFAULT
       date_obj dur_min turnos_df slot_step_min"

text \<open>
  \<^verbatim>\<open>
  def filter_future_slots(date_obj, slots):
      if not slots:
          return []
      now = datetime.now()
      if date_obj == now.date():
          return [s for s in slots if s > now]
      return slots
  \<close>
  The clock reading \<open>now\<close> is an argument of the model.
\<close>

definition filter_future_slots :: "datetime \<Rightarrow> date \<Rightarrow> datetime list \<Rightarrow> datetime list" where
  "filter_future_slots now date_obj slots =
     (if slots = [] then []
      else if date_obj = date_of now then filter (\<lambda>s. s > now) slots
      else slots)"

section \<open>The invariant of the weekly table\<close>

text \<open>
  The weekly table is meant to list, for each day, windows that do not overlap, in
  ascending order. \<open>windows_ordered\<close> says so of the windows of a day whose bounds
  \<open>to_time\<close> accepts (the others are never used): of two such windows, the earlier in
  the list starts no later and does not overlap the later one, times being compared as
  Python compares \<open>time\<close> objects.
\<close>

definition minute_of_day :: "time \<Rightarrow> int" where
  "minute_of_day t = hour t * 60 + minute t"

definition parsed_windows :: "(string \<times> string) list \<Rightarrow> (time \<times> time) list" where
  "parsed_windows tramos =
     concat (map (\<lambda>(ini, fn).
                    case to_time ini of
                      None \<Rightarrow> []
                    | Some ti \<Rightarrow> (case to_time fn of None \<Rightarrow> [] | Some tf \<Rightarrow> [(ti, tf)]))
                 tramos)"

definition windows_ordered :: "(string \<times> string) list \<Rightarrow> bool" where
  "windows_ordered tramos =
     sorted_wrt (\<lambda>(a, b) (c, e).
                   minute_of_day a \<le> minute_of_day c \<and>
                   \<not> overlaps (minute_of_day a) (minute_of_day b) (minute_of_day c) (minute_of_day e))
                (parsed_windows tramos)"

section \<open>Auxiliary facts\<close>

subsection \<open>Time arithmetic\<close>

lemma timedelta_minutes_Inr: "timedelta_minutes n = Inr td \<Longrightarrow> td = n * MINUTE_US"
  by (auto simp: timedelta_minutes_def Let_def split: if_splits)

lemma dt_add_Inr: "dt_add dt td = Inr r \<Longrightarrow> r = dt + td"
  by (auto simp: dt_add_def Let_def split: if_splits)

lemma dt_sub_Inr: "dt_sub dt td = Inr r \<Longrightarrow> r = dt - td"
  by (auto simp: dt_sub_def dest: dt_add_Inr)

subsection \<open>The check of one candidate\<close>

text \<open>
  What \<open>candidate_ok\<close> computes, without the loop: rows whose times do not parse are
  passed over; if any row parses, the two buffered ends of the candidate are computed
  (and may raise), and the candidate is accepted when it overlaps none of them.
\<close>

lemma candidate_ok_char:
  "candidate_ok buff d cs ce ts =
     (if \<forall>t \<in> set ts. isl (strptime_HM (inicio t)) \<or> isl (strptime_HM (fin t)) then Inr True
      else (case dt_sub cs buff of
              Inl e \<Rightarrow> Inl e
            | Inr a \<Rightarrow>
                (case dt_add ce buff of
                   Inl e \<Rightarrow> Inl e
                 | Inr b \<Rightarrow>
                     Inr (\<forall>t \<in> set ts. \<forall>t0 t1.
                            strptime_HM (inicio t) = Inr t0 \<and> strptime_HM (fin t) = Inr t1
                            \<longrightarrow> \<not> overlaps a b (combine d t0) (combine d t1)))))"
proof (induction ts)
  case Nil
  show ?case by simp
next
  case (Cons t ts)
  show ?case
  proof (cases "strptime_HM (inicio t)")
    case (Inl e)
    then show ?thesis using Cons by (auto split: sum.splits)
  next
    case t0: (Inr t0)
    show ?thesis
    proof (cases "strptime_HM (fin t)")
      case (Inl e)
      then show ?thesis using Cons t0 by (auto split: sum.splits)
    next
      case t1: (Inr t1)
      show ?thesis using Cons t0 t1 by (auto split: sum.splits)
    qed
  qed
qed

subsection \<open>What the loops emit\<close>

lemma slot_loop_members_aux:
  assumes "slot_loop buff d dur step activos end_window current result = Some y"
  shows "\<forall>out. y = Inr out \<longrightarrow> (\<forall>s \<in> set out. s \<in> set result \<or>
           (\<exists>ce. dt_add s dur = Inr ce \<and> ce \<le> end_window \<and> candidate_ok buff d s ce activos = Inr True))"
  using assms
proof (induction rule: slot_loop.raw_induct[rotated 1, consumes 1])
  case (1 f buff d dur step activos end_window current result y)
  show ?case
  proof (intro allI impI ballI)
    fix out s
    assume y: "y = Inr out" and s: "s \<in> set out"
    from "1.hyps" y obtain c_end where ce: "dt_add current dur = Inr c_end"
      by (auto split: sum.splits)
    show "s \<in> set result \<or>
           (\<exists>ce. dt_add s dur = Inr ce \<and> ce \<le> end_window \<and> candidate_ok buff d s ce activos = Inr True)"
    proof (cases "c_end \<le> end_window")
      case False
      with "1.hyps" ce y have "out = result" by simp
      with s show ?thesis by simp
    next
      case True
      with "1.hyps" ce y obtain ok nxt where
        ok: "candidate_ok buff d current c_end activos = Inr ok" and
        nxt: "dt_add current step = Inr nxt" and
        rec: "f buff d dur step activos end_window nxt (if ok then result @ [current] else result) = Some (Inr out)"
        by (auto split: sum.splits)
      from "1.IH"[OF rec] s
      have "s \<in> set (if ok then result @ [current] else result) \<or>
           (\<exists>ce. dt_add s dur = Inr ce \<and> ce \<le> end_window \<and> candidate_ok buff d s ce activos = Inr True)"
        by blast
      then show ?thesis using ok ce True by (auto split: if_splits)
    qed
  qed
qed

lemma slot_loop_members:
  assumes "slot_loop buff d dur step activos end_window current result = Some (Inr out)"
    and "s \<in> set out"
  shows "s \<in> set result \<or>
           (\<exists>ce. dt_add s dur = Inr ce \<and> ce \<le> end_window \<and> candidate_ok buff d s ce activos = Inr True)"
  using slot_loop_members_aux [OF assms(1)] assms(2) by blast

lemma tramos_loop_members:
  assumes "tramos_loop buff d dur step activos tramos result = Some (Inr out)"
    and "s \<in> set out"
  shows "s \<in> set result \<or>
           (\<exists>ce. dt_add s dur = Inr ce \<and> candidate_ok buff d s ce activos = Inr True)"
  using assms
proof (induction tramos arbitrary: result)
  case Nil
  then show ?case by simp
next
  case (Cons w tramos)
  obtain ini fn where w: "w = (ini, fn)" by (cases w)
  show ?case
  proof (cases "to_time ini = None \<or> to_time fn = None")
    case True
    with Cons.prems w have "tramos_loop buff d dur step activos tramos result = Some (Inr out)"
      by (auto split: option.splits)
    from Cons.IH [OF this Cons.prems(2)] show ?thesis .
  next
    case False
    then obtain ti tf where ti: "to_time ini = Some ti" and tf: "to_time fn = Some tf" by auto
    with Cons.prems(1) w obtain mid where
      mid: "slot_loop buff d dur step activos (combine d tf) (combine d ti) result = Some (Inr mid)"
      and rest: "tramos_loop buff d dur step activos tramos mid = Some (Inr out)"
      by (auto split: option.splits sum.splits)
    from Cons.IH [OF rest Cons.prems(2)]
    show ?thesis
    proof
      assume "s \<in> set mid"
      from slot_loop_members [OF mid this] show ?thesis by blast
    qed blast
  qed
qed

lemma set_dedup: "set (dedup seen xs) = set xs - seen"
  by (induction xs arbitrary: seen) auto

lemma generar_slots_with_Inr:
  assumes "generar_slots_with cfg buffer_min date_obj dur_min turnos_df slot_step_min = Some (Inr slots)"
    and "slots \<noteq> []"
  shows "\<exists>result. 0 < dur_min
         \<and> timedelta_minutes slot_step_min = Inr (slot_step_min * MINUTE_US)
         \<and> timedelta_minutes dur_min = Inr (dur_min * MINUTE_US)
         \<and> timedelta_minutes buffer_min = Inr (buffer_min * MINUTE_US)
         \<and> tramos_loop (buffer_min * MINUTE_US) date_obj (dur_min * MINUTE_US)
             (slot_step_min * MINUTE_US) (activos_of date_obj turnos_df)
             (windowsFor cfg (isoweekday date_obj)) [] = Some (Inr result)
         \<and> slots = dedup {} result"
proof -
  from assms have pos: "0 < dur_min" and ne: "windowsFor cfg (isoweekday date_obj) \<noteq> []"
    by (auto simp: generar_slots_with_def Let_def split: if_splits)
  from assms(1) pos ne obtain step dur buff result where
    "timedelta_minutes slot_step_min = Inr step"
    "timedelta_minutes dur_min = Inr dur"
    "timedelta_minutes buffer_min = Inr buff"
    "tramos_loop buff date_obj dur step (activos_of date_obj turnos_df)
             (windowsFor cfg (isoweekday date_obj)) [] = Some (Inr result)"
    "slots = dedup {} result"
    by (auto simp: generar_slots_with_def Let_def split: sum.splits option.splits)
  then show ?thesis using pos
    by (auto dest!: timedelta_minutes_Inr)
qed

subsection \<open>Rows and windows that are passed over\<close>

lemma activos_of_filter:
  "activos_of d ts = filter (\<lambda>t. fecha t = Some d \<and> estado t \<noteq> ''Cancelado'') ts"
  by (simp add: activos_of_def)





lemma to_time_valid:
  "to_time s = None \<or> (\<exists>h m. to_time s = Some (Time h m) \<and> 0 \<le> h \<and> h \<le> 23 \<and> 0 \<le> m \<and> m \<le> 59)"
  by (auto simp: to_time_def py_time_def Let_def split: list.splits sum.splits if_splits)

lemma tramos_loop_skip:
  assumes "to_time ini = None \<or> to_time fn = None"
  shows "tramos_loop buff d dur step activos (ws1 @ (ini, fn) # ws2) result
         = tramos_loop buff d dur step activos (ws1 @ ws2) result"
proof (induction ws1 arbitrary: result)
  case Nil
  from assms show ?case by (auto split: option.splits)
next
  case (Cons w ws1)
  obtain a b where w: "w = (a, b)" by (cases w)
  show ?case unfolding w
    by (simp add: Cons.IH split: option.splits sum.splits)
qed

subsection \<open>Fewer occupying rows\<close>

text \<open>
  With fewer active rows a candidate that was accepted stays accepted, and a check that
  raised nothing still raises nothing; so a run that returned still returns, with at
  least the same start times.
\<close>

lemma candidate_ok_mono:
  assumes sub: "set activos' \<subseteq> set activos"
    and ok: "candidate_ok buff d cs ce activos = Inr ok"
  shows "\<exists>ok'. candidate_ok buff d cs ce activos' = Inr ok' \<and> (ok \<longrightarrow> ok')"
proof (cases "\<forall>t \<in> set activos'. isl (strptime_HM (inicio t)) \<or> isl (strptime_HM (fin t))")
  case True
  then have "candidate_ok buff d cs ce activos' = Inr True"
    by (subst candidate_ok_char) simp
  then show ?thesis by blast
next
  case False
  with sub have F: "\<not> (\<forall>t \<in> set activos. isl (strptime_HM (inicio t)) \<or> isl (strptime_HM (fin t)))"
    by blast
  from ok F obtain a b where a: "dt_sub cs buff = Inr a" and b: "dt_add ce buff = Inr b"
    and okv: "ok = (\<forall>t \<in> set activos. \<forall>t0 t1.
                strptime_HM (inicio t) = Inr t0 \<and> strptime_HM (fin t) = Inr t1
                \<longrightarrow> \<not> overlaps a b (combine d t0) (combine d t1))"
    by (subst (asm) candidate_ok_char) (auto split: sum.splits)
  have "candidate_ok buff d cs ce activos' = Inr (\<forall>t \<in> set activos'. \<forall>t0 t1.
                strptime_HM (inicio t) = Inr t0 \<and> strptime_HM (fin t) = Inr t1
                \<longrightarrow> \<not> overlaps a b (combine d t0) (combine d t1))"
    using False a b by (subst candidate_ok_char) auto
  moreover have "ok \<longrightarrow> (\<forall>t \<in> set activos'. \<forall>t0 t1.
                strptime_HM (inicio t) = Inr t0 \<and> strptime_HM (fin t) = Inr t1
                \<longrightarrow> \<not> overlaps a b (combine d t0) (combine d t1))"
    using okv sub by blast
  ultimately show ?thesis by blast
qed

lemma slot_loop_mono_aux:
  assumes "slot_loop buff d dur step activos end_window current result = Some y"
    and "set activos' \<subseteq> set activos"
  shows "\<forall>out. y = Inr out \<longrightarrow> (\<forall>result'. set result \<subseteq> set result' \<longrightarrow>
           (\<exists>out'. slot_loop buff d dur step activos' end_window current result' = Some (Inr out')
                   \<and> set out \<subseteq> set out'))"
  using assms
proof (induction rule: slot_loop.raw_induct[rotated 1, consumes 1])
  case (1 f buff d dur step activos end_window current result y)
  show ?case
  proof (intro allI impI)
    fix out result'
    assume y: "y = Inr out" and res: "set result \<subseteq> set result'"
    from "1.hyps" y obtain c_end where ce: "dt_add current dur = Inr c_end"
      by (auto split: sum.splits)
    show "\<exists>out'. slot_loop buff d dur step activos' end_window current result' = Some (Inr out')
                   \<and> set out \<subseteq> set out'"
    proof (cases "c_end \<le> end_window")
      case False
      with "1.hyps" ce y have "out = result" by simp
      moreover from False ce
      have "slot_loop buff d dur step activos' end_window current result' = Some (Inr result')"
        by (subst slot_loop.simps) simp
      ultimately show ?thesis using res by simp
    next
      case True
      with "1.hyps" ce y obtain ok nxt where
        ok: "candidate_ok buff d current c_end activos = Inr ok" and
        nxt: "dt_add current step = Inr nxt" and
        rec: "f buff d dur step activos end_window nxt (if ok then result @ [current] else result) = Some (Inr out)"
        by (auto split: sum.splits)
      from candidate_ok_mono [OF "1.prems" ok] obtain ok' where
        ok': "candidate_ok buff d current c_end activos' = Inr ok'" and imp: "ok \<longrightarrow> ok'"
        by blast
      let ?r' = "if ok' then result' @ [current] else result'"
      from res imp have "set (if ok then result @ [current] else result) \<subseteq> set ?r'"
        by auto
      with "1.IH" [OF rec "1.prems"] obtain out' where
        out': "slot_loop buff d dur step activos' end_window nxt ?r' = Some (Inr out')"
        and sub: "set out \<subseteq> set out'"
        by blast
      from ce True ok' nxt out'
      have "slot_loop buff d dur step activos' end_window current result' = Some (Inr out')"
        by (subst slot_loop.simps) simp
      with sub show ?thesis by blast
    qed
  qed
qed

lemma slot_loop_mono:
  assumes "slot_loop buff d dur step activos end_window current result = Some (Inr out)"
    and "set activos' \<subseteq> set activos" and "set result \<subseteq> set result'"
  shows "\<exists>out'. slot_loop buff d dur step activos' end_window current result' = Some (Inr out')
                   \<and> set out \<subseteq> set out'"
  using slot_loop_mono_aux [OF assms(1,2)] assms(3) by blast

lemma tramos_loop_mono:
  assumes "tramos_loop buff d dur step activos tramos result = Some (Inr out)"
    and "set activos' \<subseteq> set activos" and "set result \<subseteq> set result'"
  shows "\<exists>out'. tramos_loop buff d dur step activos' tramos result' = Some (Inr out')
                   \<and> set out \<subseteq> set out'"
  using assms(1,3)
proof (induction tramos arbitrary: result result')
  case Nil
  then show ?case by auto
next
  case (Cons w tramos)
  obtain ini fn where w: "w = (ini, fn)" by (cases w)
  show ?case
  proof (cases "to_time ini = None \<or> to_time fn = None")
    case True
    with Cons.prems(1) w have "tramos_loop buff d dur step activos tramos result = Some (Inr out)"
      by (auto split: option.splits)
    from Cons.IH [OF this Cons.prems(2)] True w show ?thesis
      by (auto split: option.splits)
  next
    case False
    then obtain ti tf where ti: "to_time ini = Some ti" and tf: "to_time fn = Some tf" by auto
    with Cons.prems(1) w obtain mid where
      mid: "slot_loop buff d dur step activos (combine d tf) (combine d ti) result = Some (Inr mid)"
      and rest: "tramos_loop buff d dur step activos tramos mid = Some (Inr out)"
      by (auto split: option.splits sum.splits)
    from slot_loop_mono [OF mid assms(2) Cons.prems(2)] obtain mid' where
      mid': "slot_loop buff d dur step activos' (combine d tf) (combine d ti) result' = Some (Inr mid')"
      and sub: "set mid \<subseteq> set mid'" by blast
    from Cons.IH [OF rest sub] obtain out' where
      "tramos_loop buff d dur step activos' tramos mid' = Some (Inr out')" "set out \<subseteq> set out'"
      by blast
    with mid' ti tf w show ?thesis by simp
  qed
qed

lemma generar_slots_with_mono:
  assumes run: "generar_slots_with cfg buffer_min date_obj dur_min turnos_df slot_step_min = Some (Inr slots)"
    and sub: "set (activos_of date_obj turnos_df') \<subseteq> set (activos_of date_obj turnos_df)"
  shows "\<exists>slots'. generar_slots_with cfg buffer_min date_obj dur_min turnos_df' slot_step_min = Some (Inr slots')
           \<and> set slots \<subseteq> set slots'"
proof (cases "dur_min \<le> 0 \<or> windowsFor cfg (isoweekday date_obj) = []")
  case True
  with run have "slots = []"
    by (auto simp: generar_slots_with_def Let_def split: if_splits)
  moreover from True
  have "generar_slots_with cfg buffer_min date_obj dur_min turnos_df' slot_step_min = Some (Inr [])"
    by (auto simp: generar_slots_with_def Let_def)
  ultimately show ?thesis by simp
next
  case False
  with run obtain step dur buff result where
    td: "timedelta_minutes slot_step_min = Inr step"
      "timedelta_minutes dur_min = Inr dur"
      "timedelta_minutes buffer_min = Inr buff"
    and loop: "tramos_loop buff date_obj dur step (activos_of date_obj turnos_df)
             (windowsFor cfg (isoweekday date_obj)) [] = Some (Inr result)"
    and slots: "slots = dedup {} result"
    by (auto simp: generar_slots_with_def Let_def split: sum.splits option.splits)
  from tramos_loop_mono [OF loop sub, of "[]"] obtain result' where
    loop': "tramos_loop buff date_obj dur step (activos_of date_obj turnos_df')
             (windowsFor cfg (isoweekday date_obj)) [] = Some (Inr result')"
    and s: "set result \<subseteq> set result'" by auto
  from False td loop'
  have "generar_slots_with cfg buffer_min date_obj dur_min turnos_df' slot_step_min
          = Some (Inr (dedup {} result'))"
    by (simp add: generar_slots_with_def Let_def)
  with s slots show ?thesis by (simp add: set_dedup)
qed

lemma activos_of_cancel:
  "set (activos_of d (ts[i := (ts ! i)\<lparr>estado := ''Cancelado''\<rparr>])) \<subseteq> set (activos_of d ts)"
proof
  fix t
  assume "t \<in> set (activos_of d (ts[i := (ts ! i)\<lparr>estado := ''Cancelado''\<rparr>]))"
  then have t: "t \<in> set (ts[i := (ts ! i)\<lparr>estado := ''Cancelado''\<rparr>])"
    and p: "fecha t = Some d" "estado t \<noteq> ''Cancelado''"
    by (auto simp: activos_of_filter)
  from t have "t \<in> insert ((ts ! i)\<lparr>estado := ''Cancelado''\<rparr>) (set ts)"
    using set_update_subset_insert by fastforce
  with p have "t \<in> set ts" by auto
  with p show "t \<in> set (activos_of d ts)" by (simp add: activos_of_filter)
qed

subsection \<open>Order of the emitted start times\<close>

text \<open>
  A loop whose step is not positive returns only if it never runs its body; with a
  positive step it appends start times in ascending order, all within the window.
\<close>

lemma combine_minute_of_day: "combine d t = d * DAY_US + minute_of_day t * MINUTE_US"
  by (simp add: combine_def minute_of_day_def)

lemma combine_le_iff: "combine d a \<le> combine d b \<longleftrightarrow> minute_of_day a \<le> minute_of_day b"
  by (simp add: combine_minute_of_day MINUTE_US_def)

lemma combine_less_iff: "combine d a < combine d b \<longleftrightarrow> minute_of_day a < minute_of_day b"
  by (simp add: combine_minute_of_day MINUTE_US_def)

lemma slot_loop_stuck_aux:
  assumes "slot_loop buff d dur step activos end_window current result = Some y"
  shows "\<forall>out. y = Inr out \<longrightarrow>
           (\<exists>ce. dt_add current dur = Inr ce \<and> (step \<le> 0 \<longrightarrow> \<not> ce \<le> end_window))"
  using assms
proof (induction rule: slot_loop.raw_induct[rotated 1, consumes 1])
  case (1 f buff d dur step activos end_window current result y)
  show ?case
  proof (intro allI impI)
    fix out
    assume y: "y = Inr out"
    from "1.hyps" y obtain c_end where ce: "dt_add current dur = Inr c_end"
      by (auto split: sum.splits)
    have "\<not> c_end \<le> end_window" if neg: "step \<le> 0"
    proof
      assume le: "c_end \<le> end_window"
      with "1.hyps" ce y obtain ok nxt where
        nxt: "dt_add current step = Inr nxt" and
        rec: "f buff d dur step activos end_window nxt (if ok then result @ [current] else result) = Some (Inr out)"
        by (auto split: sum.splits)
      from "1.IH" [OF rec] neg obtain ce' where
        ce': "dt_add nxt dur = Inr ce'" and stuck: "\<not> ce' \<le> end_window"
        by blast
      from dt_add_Inr [OF ce] dt_add_Inr [OF nxt] dt_add_Inr [OF ce'] neg
      have "ce' \<le> c_end" by simp
      with le stuck show False by simp
    qed
    with ce show "\<exists>ce. dt_add current dur = Inr ce \<and> (step \<le> 0 \<longrightarrow> \<not> ce \<le> end_window)"
      by blast
  qed
qed

lemma slot_loop_stuck:
  assumes "slot_loop buff d dur step activos end_window current result = Some (Inr out)"
    and "step \<le> 0"
  shows "out = result"
proof -
  from slot_loop_stuck_aux [OF assms(1)] assms(2) obtain ce where
    "dt_add current dur = Inr ce" "\<not> ce \<le> end_window" by blast
  with assms(1) show ?thesis
    by (subst (asm) slot_loop.simps) simp
qed

lemma slot_loop_sorted_aux:
  assumes "slot_loop buff d dur step activos end_window current result = Some y"
  shows "\<forall>out. y = Inr out \<longrightarrow> 0 < step \<longrightarrow>
           (\<exists>new. out = result @ new \<and> sorted_wrt (<) new \<and>
                  (\<forall>s \<in> set new. current \<le> s \<and> s + dur \<le> end_window))"
  using assms
proof (induction rule: slot_loop.raw_induct[rotated 1, consumes 1])
  case (1 f buff d dur step activos end_window current result y)
  show ?case
  proof (intro allI impI)
    fix out
    assume y: "y = Inr out" and pos: "0 < step"
    from "1.hyps" y obtain c_end where ce: "dt_add current dur = Inr c_end"
      by (auto split: sum.splits)
    show "\<exists>new. out = result @ new \<and> sorted_wrt (<) new \<and>
                  (\<forall>s \<in> set new. current \<le> s \<and> s + dur \<le> end_window)"
    proof (cases "c_end \<le> end_window")
      case False
      with "1.hyps" ce y have "out = result @ []" by simp
      then show ?thesis by (intro exI [of _ "[]"]) simp
    next
      case True
      with "1.hyps" ce y obtain ok nxt where
        nxt: "dt_add current step = Inr nxt" and
        rec: "f buff d dur step activos end_window nxt (if ok then result @ [current] else result) = Some (Inr out)"
        by (auto split: sum.splits)
      from "1.IH" [OF rec] pos obtain new where
        out: "out = (if ok then result @ [current] else result) @ new"
        and srt: "sorted_wrt (<) new"
        and bnd: "\<forall>s \<in> set new. nxt \<le> s \<and> s + dur \<le> end_window"
        by blast
      from dt_add_Inr [OF nxt] pos have lt: "current < nxt" by simp
      from dt_add_Inr [OF ce] True have here: "current + dur \<le> end_window" by simp
      let ?new = "if ok then current # new else new"
      have "out = result @ ?new" using out by simp
      moreover have "sorted_wrt (<) ?new" using srt bnd lt by auto
      moreover have "\<forall>s \<in> set ?new. current \<le> s \<and> s + dur \<le> end_window"
        using bnd lt here by auto
      ultimately show ?thesis by blast
    qed
  qed
qed

lemma slot_loop_sorted:
  assumes run: "slot_loop buff d dur step activos end_window current result = Some (Inr out)"
  shows "\<exists>new. out = result @ new \<and> sorted_wrt (<) new \<and>
                  (\<forall>s \<in> set new. current \<le> s \<and> s + dur \<le> end_window)"
proof (cases "0 < step")
  case True
  with slot_loop_sorted_aux [OF run] show ?thesis by blast
next
  case False
  then have "step \<le> 0" by simp
  from slot_loop_stuck [OF run this] have "out = result @ []" by simp
  then show ?thesis by (intro exI [of _ "[]"]) simp
qed

lemma parsed_windows_Cons_skip:
  "to_time ini = None \<or> to_time fn = None \<Longrightarrow>
     parsed_windows ((ini, fn) # tramos) = parsed_windows tramos"
  by (auto simp: parsed_windows_def split: option.splits)

lemma parsed_windows_Cons_keep:
  "to_time ini = Some ti \<Longrightarrow> to_time fn = Some tf \<Longrightarrow>
     parsed_windows ((ini, fn) # tramos) = (ti, tf) # parsed_windows tramos"
  by (simp add: parsed_windows_def)

lemma tramos_loop_sorted:
  assumes "tramos_loop buff d dur step activos tramos result = Some (Inr out)"
    and "0 < dur"
    and "sorted_wrt (<) result"
    and "windows_ordered tramos"
    and "\<forall>r \<in> set result. \<forall>(a, b) \<in> set (parsed_windows tramos).
           minute_of_day a < minute_of_day b \<longrightarrow> r < combine d a"
  shows "sorted_wrt (<) out"
  using assms(1,3,4,5)
proof (induction tramos arbitrary: result)
  case Nil
  then show ?case by simp
next
  case (Cons w tramos)
  obtain ini fn where w: "w = (ini, fn)" by (cases w)
  show ?case
  proof (cases "to_time ini = None \<or> to_time fn = None")
    case True
    with Cons.prems(1) w have run: "tramos_loop buff d dur step activos tramos result = Some (Inr out)"
      by (auto split: option.splits)
    from Cons.prems(3,4) True w
    have "windows_ordered tramos"
      and "\<forall>r \<in> set result. \<forall>(a, b) \<in> set (parsed_windows tramos).
           minute_of_day a < minute_of_day b \<longrightarrow> r < combine d a"
      by (simp_all add: windows_ordered_def parsed_windows_Cons_skip)
    from Cons.IH [OF run Cons.prems(2) this] show ?thesis .
  next
    case False
    then obtain ti tf where ti: "to_time ini = Some ti" and tf: "to_time fn = Some tf" by auto
    with Cons.prems(1) w obtain mid where
      mid: "slot_loop buff d dur step activos (combine d tf) (combine d ti) result = Some (Inr mid)"
      and rest: "tramos_loop buff d dur step activos tramos mid = Some (Inr out)"
      by (auto split: option.splits sum.splits)
    from slot_loop_sorted [OF mid] obtain new where
      new: "mid = result @ new" and srt: "sorted_wrt (<) new"
      and bnd: "\<forall>s \<in> set new. combine d ti \<le> s \<and> s + dur \<le> combine d tf"
      by blast
    have pw: "parsed_windows (w # tramos) = (ti, tf) # parsed_windows tramos"
      unfolding w by (rule parsed_windows_Cons_keep [OF ti tf])
    from Cons.prems(3) pw have ord: "windows_ordered tramos"
      and fst: "\<forall>(c, e) \<in> set (parsed_windows tramos).
                 minute_of_day ti \<le> minute_of_day c \<and>
                 \<not> overlaps (minute_of_day ti) (minute_of_day tf) (minute_of_day c) (minute_of_day e)"
      by (auto simp: windows_ordered_def)
    have wf: "minute_of_day ti < minute_of_day tf" if "s \<in> set new" for s
    proof -
      from bnd that assms(2) have "combine d ti < combine d tf" by fastforce
      then show ?thesis by (simp add: combine_less_iff)
    qed
    have cross: "r < s" if "r \<in> set result" "s \<in> set new" for r s
    proof -
      from Cons.prems(4) pw that(1) wf [OF that(2)] have "r < combine d ti" by auto
      with bnd that(2) show ?thesis by fastforce
    qed
    have smid: "sorted_wrt (<) mid"
      unfolding new using Cons.prems(2) srt cross by (auto simp: sorted_wrt_append)
    have bmid: "\<forall>r \<in> set mid. \<forall>(a, b) \<in> set (parsed_windows tramos).
           minute_of_day a < minute_of_day b \<longrightarrow> r < combine d a"
    proof (intro ballI, clarify)
      fix r a b
      assume r: "r \<in> set mid" and ab: "(a, b) \<in> set (parsed_windows tramos)"
        and lt: "minute_of_day a < minute_of_day b"
      from r new consider "r \<in> set result" | "r \<in> set new" by auto
      then show "r < combine d a"
      proof cases
        case 1
        with Cons.prems(4) pw ab lt show ?thesis by auto
      next
        case 2
        from fst ab have le: "minute_of_day ti \<le> minute_of_day a"
          and no: "\<not> overlaps (minute_of_day ti) (minute_of_day tf) (minute_of_day a) (minute_of_day b)"
          by auto
        from le lt no have "minute_of_day tf \<le> minute_of_day a"
          by (auto simp: overlaps_def)
        then have "combine d tf \<le> combine d a" by (simp add: combine_le_iff)
        with bnd 2 assms(2) show ?thesis by fastforce
      qed
    qed
    from Cons.IH [OF rest smid ord bmid] show ?thesis .
  qed
qed

lemma dedup_distinct: "distinct xs \<Longrightarrow> seen \<inter> set xs = {} \<Longrightarrow> dedup seen xs = xs"
  by (induction xs arbitrary: seen) auto

subsection \<open>Termination and normal return\<close>



lemma slot_loop_terminates:
  assumes "0 < step"
  shows "\<exists>y. slot_loop buff d dur step activos end_window current result = Some y"
proof (induction "nat (end_window - dur - current + 1)" arbitrary: current result rule: less_induct)
  case less
  show ?case
  proof (cases "dt_add current dur")
    case (Inl e)
    then show ?thesis by (subst slot_loop.simps) simp
  next
    case ce: (Inr c_end)
    show ?thesis
    proof (cases "c_end \<le> end_window")
      case False
      with ce show ?thesis by (subst slot_loop.simps) simp
    next
      case True
      show ?thesis
      proof (cases "candidate_ok buff d current c_end activos")
        case (Inl e)
        with ce True show ?thesis by (subst slot_loop.simps) simp
      next
        case ok: (Inr ok)
        show ?thesis
        proof (cases "dt_add current step")
          case (Inl e)
          with ce True ok show ?thesis by (subst slot_loop.simps) simp
        next
          case (Inr nxt)
          from dt_add_Inr [OF ce] dt_add_Inr [OF Inr] True assms
          have "nat (end_window - dur - nxt + 1) < nat (end_window - dur - current + 1)"
            by simp
          from less.hyps [OF this] obtain y where
            "slot_loop buff d dur step activos end_window nxt
               (if ok then result @ [current] else result) = Some y" by blast
          with ce True ok Inr show ?thesis by (subst slot_loop.simps) simp
        qed
      qed
    qed
  qed
qed

lemma tramos_loop_terminates:
  assumes "0 < step"
  shows "\<exists>y. tramos_loop buff d dur step activos tramos result = Some y"
proof (induction tramos arbitrary: result)
  case Nil
  show ?case by simp
next
  case (Cons w tramos)
  obtain ini fn where w: "w = (ini, fn)" by (cases w)
  show ?case
  proof (cases "to_time ini = None \<or> to_time fn = None")
    case True
    with Cons.IH [of result] w show ?thesis by (auto split: option.splits)
  next
    case False
    then obtain ti tf where t: "to_time ini = Some ti" "to_time fn = Some tf" by auto
    from slot_loop_terminates [OF assms] obtain y where
      y: "slot_loop buff d dur step activos (combine d tf) (combine d ti) result = Some y"
      by blast
    show ?thesis
    proof (cases y)
      case (Inl e)
      with y t w show ?thesis by simp
    next
      case (Inr mid)
      with y t w Cons.IH [of mid] show ?thesis by simp
    qed
  qed
qed

lemma generar_slots_with_terminates:
  assumes "0 < slot_step_min"
  shows "\<exists>y. generar_slots_with cfg buffer_min date_obj dur_min turnos_df slot_step_min = Some y"
proof -
  have "\<exists>y. (case tramos_loop buff date_obj dur step activos tramos [] of
               None \<Rightarrow> None
             | Some (Inl e) \<Rightarrow> Some (Inl e)
             | Some (Inr result) \<Rightarrow> Some (Inr (dedup {} result))) = Some y"
    if "0 < step" for buff dur step activos tramos
    using tramos_loop_terminates [OF that, of buff date_obj dur activos tramos "[]"]
    by (auto split: sum.splits)
  moreover have "0 < step" if "timedelta_minutes slot_step_min = Inr step" for step
    using timedelta_minutes_Inr [OF that] assms by (simp add: MINUTE_US_def)
  ultimately show ?thesis
    by (auto simp: generar_slots_with_def Let_def split: sum.splits)
qed





subsection \<open>Sums of 64-bit columns\<close>

lemma sum_list_word_of_int:
  "(sum_list (map f xs) :: 64 word) = word_of_int (sum_list (map (\<lambda>r. sint (f r)) xs))"
  by (induction xs) simp_all

lemma sint_sum_list_in_range:
  assumes "- (2 ^ 63) \<le> sum_list (map (\<lambda>r. sint (f r)) xs)"
      and "sum_list (map (\<lambda>r. sint (f r)) xs) < 2 ^ 63"
  shows "sint (sum_list (map f xs) :: 64 word) = sum_list (map (\<lambda>r. sint (f r)) xs)"
proof -
  have "sint (word_of_int (sum_list (map (\<lambda>r. sint (f r)) xs)) :: 64 word)
        = signed_take_bit 63 (sum_list (map (\<lambda>r. sint (f r)) xs))"
    by (simp add: sint_sbintrunc')
  also have "\<dots> = sum_list (map (\<lambda>r. sint (f r)) xs)"
    using assms by (simp add: signed_take_bit_int_eq_self)
  finally show ?thesis by (simp add: sum_list_word_of_int [of f xs])
qed

lemmas eval_defs =
  generar_slots_with_def windowsFor_def DEFAULT_DISPONIBILIDAD_CODE_def isoweekday_def
  activos_of_def timedelta_minutes_def MINUTE_US_def DAY_US_def MAXORDINAL_def to_time_def
  strip_def is_space_def is_int_space_def INT_MAX_STR_DIGITS_def py_int_def digit_of_def py_time_def combine_def slot_loop.simps
  dt_add_def dt_sub_def strptime_HM_def match_H_def match_M_def match_colon_def
  overlaps_def Let_def

section \<open>Properties of slot generation\<close>

text \<open>
  C1. Whenever \<open>generar_slots\<close> returns, every start time \<open>s\<close> it emits gives an
  interval \<open>[s, s + duration)\<close> that overlaps no interval \<open>[inicio, fin)\<close> of an
  appointment of that date whose status is not \<open>Cancelado\<close> and whose times parse, once
  that interval is widened by the buffer at both ends. This holds for every table of
  windows, buffer, date, duration, step and appointment list.
\<close>

theorem generar_slots_no_overlap:
  assumes "generar_slots_with cfg buffer_min date_obj dur_min turnos_df slot_step_min = Some (Inr slots)"
    and "s \<in> set slots"
    and "t \<in> set turnos_df" and "fecha t = Some date_obj" and "estado t \<noteq> ''Cancelado''"
    and "strptime_HM (inicio t) = Inr t0" and "strptime_HM (fin t) = Inr t1"
  shows "\<not> overlaps s (s + dur_min * MINUTE_US)
            (combine date_obj t0 - buffer_min * MINUTE_US)
            (combine date_obj t1 + buffer_min * MINUTE_US)"
proof -
  let ?buff = "buffer_min * MINUTE_US" and ?dur = "dur_min * MINUTE_US"
  let ?activos = "activos_of date_obj turnos_df"
  from assms(2) have "slots \<noteq> []" by auto
  from generar_slots_with_Inr [OF assms(1) this] obtain result where
    loop: "tramos_loop ?buff date_obj ?dur (slot_step_min * MINUTE_US) ?activos
             (windowsFor cfg (isoweekday date_obj)) [] = Some (Inr result)"
    and slots: "slots = dedup {} result"
    by blast
  from assms(2) slots have "s \<in> set result" by (simp add: set_dedup)
  from tramos_loop_members [OF loop this] obtain ce where
    ce: "dt_add s ?dur = Inr ce" and ok: "candidate_ok ?buff date_obj s ce ?activos = Inr True"
    by auto
  from assms(3-5) have act: "t \<in> set ?activos"
    by (auto simp: activos_of_def)
  with assms(6,7) have "\<not> (\<forall>t \<in> set ?activos. isl (strptime_HM (inicio t)) \<or> isl (strptime_HM (fin t)))"
    by force
  with ok obtain a b where a: "dt_sub s ?buff = Inr a" and b: "dt_add ce ?buff = Inr b"
    and all: "\<forall>t \<in> set ?activos. \<forall>t0 t1.
                strptime_HM (inicio t) = Inr t0 \<and> strptime_HM (fin t) = Inr t1
                \<longrightarrow> \<not> overlaps a b (combine date_obj t0) (combine date_obj t1)"
    by (subst (asm) candidate_ok_char) (auto split: sum.splits)
  from all act assms(6,7) have "\<not> overlaps a b (combine date_obj t0) (combine date_obj t1)"
    by blast
  moreover have "a = s - ?buff" "b = s + ?dur + ?buff"
    using dt_sub_Inr [OF a] dt_add_Inr [OF b] dt_add_Inr [OF ce] by simp_all
  ultimately show ?thesis
    unfolding overlaps_def by arith
qed

theorem generar_slots_no_overlap_witness:
  "generar_slots_with DEFAULT_DISPONIBILIDAD_CODE 5 738887 240
     [\<lparr>fecha = Some 738887, estado = ''Confirmado'', inicio = ''10:00'', fin = ''10:30''\<rparr>] 120
     = Some (Inr [63839876400000000, 63839883600000000])
   \<and> \<not> overlaps 63839876400000000 (63839876400000000 + 240 * MINUTE_US)
         (combine 738887 (Time 10 0) - 5 * MINUTE_US)
         (combine 738887 (Time 10 30) + 5 * MINUTE_US)"
proof -
  let ?t = "\<lparr>fecha = Some 738887, estado = ''Confirmado'', inicio = ''10:00'', fin = ''10:30''\<rparr>"
  have run: "generar_slots_with DEFAULT_DISPONIBILIDAD_CODE 5 738887 240 [?t] 120
               = Some (Inr [63839876400000000, 63839883600000000])"
    by (simp add: eval_defs)
  have t0: "strptime_HM (inicio ?t) = Inr (Time 10 0)"
    and t1: "strptime_HM (fin ?t) = Inr (Time 10 30)"
    by (simp_all add: strptime_HM_def match_H_def match_M_def match_colon_def digit_of_def)
  from generar_slots_no_overlap [OF run _ _ _ _ t0 t1, of 63839876400000000] run
  show ?thesis by simp
qed

text \<open>
  C7. A duration of zero or less gives the empty list, returned normally, whatever the
  other arguments are.
\<close>

theorem generar_slots_duration_guard:
  "dur_min \<le> 0 \<Longrightarrow>
     generar_slots_with cfg buffer_min date_obj dur_min turnos_df slot_step_min = Some (Inr [])
     \<and> generar_slots date_obj dur_min turnos_df slot_step_min = Some (Inr [])"
  by (simp add: generar_slots_def generar_slots_with_def)

theorem generar_slots_duration_guard_witness:
  "(0::int) \<le> 0
   \<and> generar_slots_with DEFAULT_DISPONIBILIDAD_CODE 5 738887 0
         [\<lparr>fecha = Some 738887, estado = ''Confirmado'', inicio = ''10:00'', fin = ''10:30''\<rparr>] 10
       = Some (Inr [])
   \<and> generar_slots 738887 (- 30) [] 10 = Some (Inr [])"
  using generar_slots_duration_guard [of 0 DEFAULT_DISPONIBILIDAD_CODE 5 738887
          "[\<lparr>fecha = Some 738887, estado = ''Confirmado'', inicio = ''10:00'', fin = ''10:30''\<rparr>]" 10]
        generar_slots_duration_guard [of "- 30" DEFAULT_DISPONIBILIDAD_CODE 5 738887 "[]" 10]
  by simp

text \<open>
  C2. If the windows of the date's weekday do not overlap and are listed in ascending
  order, every list \<open>generar_slots\<close> returns is strictly ascending and has no
  duplicate, for every duration, step, buffer and appointment list.
\<close>

theorem generar_slots_strictly_ascending:
  assumes "windows_ordered (windowsFor cfg (isoweekday date_obj))"
    and "generar_slots_with cfg buffer_min date_obj dur_min turnos_df slot_step_min = Some (Inr slots)"
  shows "sorted_wrt (<) slots \<and> distinct slots"
proof (cases "slots = []")
  case True
  then show ?thesis by simp
next
  case False
  from generar_slots_with_Inr [OF assms(2) False] obtain result where
    pos: "0 < dur_min"
    and loop: "tramos_loop (buffer_min * MINUTE_US) date_obj (dur_min * MINUTE_US)
             (slot_step_min * MINUTE_US) (activos_of date_obj turnos_df)
             (windowsFor cfg (isoweekday date_obj)) [] = Some (Inr result)"
    and slots: "slots = dedup {} result"
    by blast
  from pos have "0 < dur_min * MINUTE_US" by (simp add: MINUTE_US_def)
  from tramos_loop_sorted [OF loop this _ assms(1)] have srt: "sorted_wrt (<) result" by simp
  then have "distinct result" by (simp add: strict_sorted_iff)
  with slots have "slots = result" by (simp add: dedup_distinct)
  with srt \<open>distinct result\<close> show ?thesis by simp
qed

theorem generar_slots_strictly_ascending_witness:
  "windows_ordered (windowsFor DEFAULT_DISPONIBILIDAD_CODE (isoweekday 738886))
   \<and> generar_slots_with DEFAULT_DISPONIBILIDAD_CODE 5 738886 120 [] 120
       = Some (Inr [63839782800000000, 63839790000000000, 63839800800000000])
   \<and> sorted_wrt (<) [63839782800000000, 63839790000000000, 63839800800000000 :: int]
   \<and> distinct [63839782800000000, 63839790000000000, 63839800800000000 :: int]"
proof -
  have tt: "to_time ''09:00'' = Some (Time 9 0)" "to_time ''13:00'' = Some (Time 13 0)"
    "to_time ''14:00'' = Some (Time 14 0)" "to_time ''17:00'' = Some (Time 17 0)"
    by (simp_all add: to_time_def strip_def is_space_def is_int_space_def INT_MAX_STR_DIGITS_def py_int_def digit_of_def py_time_def)
  have wd: "isoweekday 738886 = 1" by (simp add: isoweekday_def)
  have ord: "windows_ordered (windowsFor DEFAULT_DISPONIBILIDAD_CODE (isoweekday 738886))"
    unfolding wd
    by (simp add: windowsFor_def DEFAULT_DISPONIBILIDAD_CODE_def windows_ordered_def
        parsed_windows_def tt minute_of_day_def overlaps_def)
  have run: "generar_slots_with DEFAULT_DISPONIBILIDAD_CODE 5 738886 120 [] 120
       = Some (Inr [63839782800000000, 63839790000000000, 63839800800000000])"
    by (simp add: eval_defs)
  from generar_slots_strictly_ascending [OF ord run] ord run show ?thesis by blast
qed

text \<open>
  C3. Setting the status of one appointment to \<open>Cancelado\<close>, all else equal, removes no
  slot: if \<open>generar_slots\<close> returned a list before the change, it returns a list after
  it, and every start time of the first list is in the second. An appointment whose
  status is \<open>Cancelado\<close> excludes nothing: the run with it is the run without it.
\<close>

theorem generar_slots_cancel_frees:
  "(i < length turnos_df \<and>
      generar_slots_with cfg buffer_min date_obj dur_min turnos_df slot_step_min = Some (Inr slots)
    \<longrightarrow> (\<exists>slots'. generar_slots_with cfg buffer_min date_obj dur_min
                      (turnos_df[i := (turnos_df ! i)\<lparr>estado := ''Cancelado''\<rparr>]) slot_step_min
                    = Some (Inr slots')
                  \<and> set slots \<subseteq> set slots'))
   \<and> (estado t = ''Cancelado'' \<longrightarrow>
        generar_slots_with cfg buffer_min date_obj dur_min (xs @ t # ys) slot_step_min
        = generar_slots_with cfg buffer_min date_obj dur_min (xs @ ys) slot_step_min)"
proof (intro conjI impI)
  assume "i < length turnos_df \<and>
      generar_slots_with cfg buffer_min date_obj dur_min turnos_df slot_step_min = Some (Inr slots)"
  then have run: "generar_slots_with cfg buffer_min date_obj dur_min turnos_df slot_step_min = Some (Inr slots)"
    by simp
  from generar_slots_with_mono [OF run activos_of_cancel]
  show "\<exists>slots'. generar_slots_with cfg buffer_min date_obj dur_min
                      (turnos_df[i := (turnos_df ! i)\<lparr>estado := ''Cancelado''\<rparr>]) slot_step_min
                    = Some (Inr slots')
                  \<and> set slots \<subseteq> set slots'" .
next
  assume "estado t = ''Cancelado''"
  then have "activos_of date_obj (xs @ t # ys) = activos_of date_obj (xs @ ys)"
    by (simp add: activos_of_filter)
  then show "generar_slots_with cfg buffer_min date_obj dur_min (xs @ t # ys) slot_step_min
        = generar_slots_with cfg buffer_min date_obj dur_min (xs @ ys) slot_step_min"
    by (simp add: generar_slots_with_def Let_def)
qed

theorem generar_slots_cancel_frees_witness:
  "(0::nat) < length [\<lparr>fecha = Some 738887, estado = ''Confirmado'', inicio = ''10:00'', fin = ''10:30''\<rparr>]
   \<and> generar_slots_with DEFAULT_DISPONIBILIDAD_CODE 5 738887 240
        [\<lparr>fecha = Some 738887, estado = ''Confirmado'', inicio = ''10:00'', fin = ''10:30''\<rparr>] 120
       = Some (Inr [63839876400000000, 63839883600000000])
   \<and> (\<exists>slots'. generar_slots_with DEFAULT_DISPONIBILIDAD_CODE 5 738887 240
        [\<lparr>fecha = Some 738887, estado = ''Cancelado'', inicio = ''10:00'', fin = ''10:30''\<rparr>] 120
       = Some (Inr slots') \<and> {63839876400000000, 63839883600000000} \<subseteq> set slots')
   \<and> generar_slots_with DEFAULT_DISPONIBILIDAD_CODE 5 738887 240
        [\<lparr>fecha = Some 738887, estado = ''Cancelado'', inicio = ''10:00'', fin = ''10:30''\<rparr>] 120
       = Some (Inr [63839869200000000, 63839876400000000, 63839883600000000])"
proof -
  let ?t = "\<lparr>fecha = Some 738887, estado = ''Confirmado'', inicio = ''10:00'', fin = ''10:30''\<rparr>"
  let ?c = "\<lparr>fecha = Some 738887, estado = ''Cancelado'', inicio = ''10:00'', fin = ''10:30''\<rparr>"
  have run: "generar_slots_with DEFAULT_DISPONIBILIDAD_CODE 5 738887 240 [?t] 120
               = Some (Inr [63839876400000000, 63839883600000000])"
    by (simp add: eval_defs)
  have len: "0 < length [?t]" by simp
  have upd: "[?t][0 := ([?t] ! 0)\<lparr>estado := ''Cancelado''\<rparr>] = [?c]" by simp
  have free: "generar_slots_with DEFAULT_DISPONIBILIDAD_CODE 5 738887 240 ([] @ []) 120
               = Some (Inr [63839869200000000, 63839876400000000, 63839883600000000])"
    by (simp add: eval_defs)
  note inst = generar_slots_cancel_frees [of 0 "[?t]" DEFAULT_DISPONIBILIDAD_CODE 5 738887 240 120
               "[63839876400000000, 63839883600000000]" ?c "[]" "[]"]
  from inst [THEN conjunct1] len run
  have a: "\<exists>slots'. generar_slots_with DEFAULT_DISPONIBILIDAD_CODE 5 738887 240 [?c] 120
             = Some (Inr slots') \<and> {63839876400000000, 63839883600000000} \<subseteq> set slots'"
    unfolding upd by simp
  from inst [THEN conjunct2] have "generar_slots_with DEFAULT_DISPONIBILIDAD_CODE 5 738887 240 ([] @ ?c # []) 120
        = generar_slots_with DEFAULT_DISPONIBILIDAD_CODE 5 738887 240 ([] @ []) 120"
    by simp
  then have b: "generar_slots_with DEFAULT_DISPONIBILIDAD_CODE 5 738887 240 [?c] 120
        = Some (Inr [63839869200000000, 63839876400000000, 63839883600000000])"
    unfolding free by simp
  from len run a b show ?thesis by blast
qed




text \<open>
  C10. \<open>to_time\<close> returns, for every string, either nothing or a time with hour in
  0..23 and minute in 0..59: each exception of its \<open>try\<close> block is caught. A window of
  the day whose start or end \<open>to_time\<close> rejects is passed over: when other windows
  remain, \<open>generar_slots\<close> does exactly what it does on the remaining windows alone, and
  in every case a list it returns is the list the remaining windows give.
\<close>

theorem to_time_total_window_skipped:
  "(to_time s = None \<or>
      (\<exists>h m. to_time s = Some (Time h m) \<and> 0 \<le> h \<and> h \<le> 23 \<and> 0 \<le> m \<and> m \<le> 59))
   \<and> ((to_time ini = None \<or> to_time fn = None) \<and>
        windowsFor cfg (isoweekday date_obj) = ws1 @ (ini, fn) # ws2 \<longrightarrow>
        (ws1 @ ws2 \<noteq> [] \<longrightarrow>
           generar_slots_with cfg buffer_min date_obj dur_min turnos_df slot_step_min
           = generar_slots_with (cfg(isoweekday date_obj \<mapsto> ws1 @ ws2)) buffer_min date_obj
               dur_min turnos_df slot_step_min)
        \<and> (\<forall>slots.
              generar_slots_with cfg buffer_min date_obj dur_min turnos_df slot_step_min
                = Some (Inr slots) \<longrightarrow>
              generar_slots_with (cfg(isoweekday date_obj \<mapsto> ws1 @ ws2)) buffer_min date_obj
                dur_min turnos_df slot_step_min = Some (Inr slots)))"
proof (intro conjI impI allI)
  show "to_time s = None \<or>
      (\<exists>h m. to_time s = Some (Time h m) \<and> 0 \<le> h \<and> h \<le> 23 \<and> 0 \<le> m \<and> m \<le> 59)"
    by (rule to_time_valid)
next
  assume a: "(to_time ini = None \<or> to_time fn = None) \<and>
        windowsFor cfg (isoweekday date_obj) = ws1 @ (ini, fn) # ws2"
    and ne: "ws1 @ ws2 \<noteq> []"
  from a have w: "windowsFor cfg (isoweekday date_obj) = ws1 @ (ini, fn) # ws2"
    and bad: "to_time ini = None \<or> to_time fn = None" by simp_all
  have w': "windowsFor (cfg(isoweekday date_obj \<mapsto> ws1 @ ws2)) (isoweekday date_obj) = ws1 @ ws2"
    by (simp add: windowsFor_def)
  show "generar_slots_with cfg buffer_min date_obj dur_min turnos_df slot_step_min
           = generar_slots_with (cfg(isoweekday date_obj \<mapsto> ws1 @ ws2)) buffer_min date_obj
               dur_min turnos_df slot_step_min"
    unfolding generar_slots_with_def Let_def w w' tramos_loop_skip [OF bad]
    using ne by auto
next
  fix slots
  assume a: "(to_time ini = None \<or> to_time fn = None) \<and>
        windowsFor cfg (isoweekday date_obj) = ws1 @ (ini, fn) # ws2"
    and run: "generar_slots_with cfg buffer_min date_obj dur_min turnos_df slot_step_min
                = Some (Inr slots)"
  from a have w: "windowsFor cfg (isoweekday date_obj) = ws1 @ (ini, fn) # ws2"
    and bad: "to_time ini = None \<or> to_time fn = None" by simp_all
  have w': "windowsFor (cfg(isoweekday date_obj \<mapsto> ws1 @ ws2)) (isoweekday date_obj) = ws1 @ ws2"
    by (simp add: windowsFor_def)
  show "generar_slots_with (cfg(isoweekday date_obj \<mapsto> ws1 @ ws2)) buffer_min date_obj
                dur_min turnos_df slot_step_min = Some (Inr slots)"
  proof (cases "dur_min \<le> 0")
    case True
    with run show ?thesis by (simp add: generar_slots_with_def)
  next
    case pos: False
    show ?thesis
    proof (cases "ws1 @ ws2 = []")
      case False
      with run pos show ?thesis
        unfolding generar_slots_with_def Let_def w w' tramos_loop_skip [OF bad] by auto
    next
      case True
      with run pos have "slots = []"
        unfolding generar_slots_with_def Let_def w tramos_loop_skip [OF bad]
        by (auto split: sum.splits)
      with True show ?thesis
        unfolding generar_slots_with_def Let_def w' by simp
    qed
  qed
qed

theorem to_time_total_window_skipped_witness:
  "to_time [CHR ''9'', CHR 0x1C, CHR '':'', CHR ''0'', CHR ''0''] = None
   \<and> generar_slots_with (Map.empty(2 \<mapsto> [(''09:00'', ''13:00''), ([CHR ''9'', CHR 0x1C, CHR '':'', CHR ''0'', CHR ''0''], ''14:00''), (''15:00'', ''17:00'')]))
        5 738887 120 [] 120
     = Some (Inr [63839869200000000, 63839876400000000, 63839890800000000])"
proof -
  let ?cfg = "Map.empty(2 \<mapsto> [(''09:00'', ''13:00''), ([CHR ''9'', CHR 0x1C, CHR '':'', CHR ''0'', CHR ''0''], ''14:00''), (''15:00'', ''17:00'')])"
  let ?cfg' = "Map.empty(2 \<mapsto> [(''09:00'', ''13:00''), (''15:00'', ''17:00'')])"
  have wd: "isoweekday 738887 = 2" by (simp add: isoweekday_def)
  have bad: "to_time [CHR ''9'', CHR 0x1C, CHR '':'', CHR ''0'', CHR ''0''] = None"
    by (simp add: to_time_def strip_def is_space_def is_int_space_def INT_MAX_STR_DIGITS_def
        py_int_def digit_of_def py_time_def)
  have w: "windowsFor ?cfg (isoweekday 738887)
           = [(''09:00'', ''13:00'')] @ ([CHR ''9'', CHR 0x1C, CHR '':'', CHR ''0'', CHR ''0''], ''14:00'') # [(''15:00'', ''17:00'')]"
    by (simp add: windowsFor_def wd)
  have upd: "?cfg(isoweekday 738887 \<mapsto> [(''09:00'', ''13:00'')] @ [(''15:00'', ''17:00'')]) = ?cfg'"
    by (simp add: wd)
  have run: "generar_slots_with ?cfg' 5 738887 120 [] 120
     = Some (Inr [63839869200000000, 63839876400000000, 63839890800000000])"
    by (simp add: eval_defs)
  have ne: "[(''09:00'', ''13:00'')] @ [(''15:00'', ''17:00'')] \<noteq> []" by simp
  from to_time_total_window_skipped [of "[CHR ''9'', CHR 0x1C, CHR '':'', CHR ''0'', CHR ''0'']" "[CHR ''9'', CHR 0x1C, CHR '':'', CHR ''0'', CHR ''0'']" "''14:00''" ?cfg 738887
         "[(''09:00'', ''13:00'')]" "[(''15:00'', ''17:00'')]" 5 120 "[]" 120]
  have "generar_slots_with ?cfg 5 738887 120 [] 120
     = generar_slots_with (?cfg(isoweekday 738887 \<mapsto> [(''09:00'', ''13:00'')] @ [(''15:00'', ''17:00'')]))
        5 738887 120 [] 120"
    using bad w ne by blast
  then show ?thesis unfolding upd run using bad by blast
qed

section \<open>The lookup of a weekday's windows\<close>

text \<open>
  C6, as the code has it. The lookup is \<open>dict.get\<close> with the default \<open>[]\<close>: it raises
  for no weekday. For a weekday outside 1..7, here 8 and 0, it returns the empty list.
\<close>

theorem windowsFor_no_error_counterexample:
  "windowsFor DEFAULT_DISPONIBILIDAD_CODE 8 = [] \<and> windowsFor DEFAULT_DISPONIBILIDAD_CODE 0 = []"
  by (simp add: windowsFor_def DEFAULT_DISPONIBILIDAD_CODE_def)

text \<open>
  C6, amended. For every integer weekday the lookup returns the windows the table holds
  for that key, and the empty list when the table has no such key; under the default
  table every weekday below 1 or from 7 on has no key.
\<close>

theorem windowsFor_lookup:
  "(\<forall>tramos. cfg weekday = Some tramos \<longrightarrow> windowsFor cfg weekday = tramos)
   \<and> (cfg weekday = None \<longrightarrow> windowsFor cfg weekday = [])
   \<and> (weekday < 1 \<or> 7 \<le> weekday \<longrightarrow> windowsFor DEFAULT_DISPONIBILIDAD_CODE weekday = [])"
  by (auto simp: windowsFor_def DEFAULT_DISPONIBILIDAD_CODE_def)

theorem windowsFor_lookup_witness:
  "DEFAULT_DISPONIBILIDAD_CODE 1 = Some [(''09:00'', ''13:00''), (''14:00'', ''17:00'')]
   \<and> windowsFor DEFAULT_DISPONIBILIDAD_CODE 1 = [(''09:00'', ''13:00''), (''14:00'', ''17:00'')]
   \<and> DEFAULT_DISPONIBILIDAD_CODE 7 = None
   \<and> windowsFor DEFAULT_DISPONIBILIDAD_CODE 7 = []
   \<and> windowsFor DEFAULT_DISPONIBILIDAD_CODE (- 3) = []"
proof -
  have k1: "DEFAULT_DISPONIBILIDAD_CODE 1 = Some [(''09:00'', ''13:00''), (''14:00'', ''17:00'')]"
    and k7: "DEFAULT_DISPONIBILIDAD_CODE 7 = None"
    by (simp_all add: DEFAULT_DISPONIBILIDAD_CODE_def)
  from windowsFor_lookup [of DEFAULT_DISPONIBILIDAD_CODE 1]
       windowsFor_lookup [of DEFAULT_DISPONIBILIDAD_CODE 7]
       windowsFor_lookup [of DEFAULT_DISPONIBILIDAD_CODE "- 3"] k1 k7
  show ?thesis by simp
qed

section \<open>The past-time filter\<close>

text \<open>
  C4. When the date is the calendar date of \<open>now\<close>, the filter returns exactly the
  slots that are strictly after \<open>now\<close>, so none of its output is at or before \<open>now\<close>;
  when the date is after the calendar date of \<open>now\<close>, it returns its input.
\<close>

theorem filter_future_slots_today:
  "(date_obj = date_of now \<longrightarrow>
      filter_future_slots now date_obj slots = filter (\<lambda>s. now < s) slots
      \<and> (\<forall>s \<in> set (filter_future_slots now date_obj slots). \<not> s \<le> now))
   \<and> (date_of now < date_obj \<longrightarrow> filter_future_slots now date_obj slots = slots)"
  by (auto simp: filter_future_slots_def)

theorem filter_future_slots_today_witness:
  "date_of (738887 * DAY_US + 845 * MINUTE_US) = 738887
   \<and> filter_future_slots (738887 * DAY_US + 845 * MINUTE_US) 738887
        [738887 * DAY_US + 840 * MINUTE_US, 738887 * DAY_US + 845 * MINUTE_US,
         738887 * DAY_US + 850 * MINUTE_US]
       = [738887 * DAY_US + 850 * MINUTE_US]
   \<and> filter_future_slots (738887 * DAY_US + 845 * MINUTE_US) 738888
        [738888 * DAY_US + 540 * MINUTE_US] = [738888 * DAY_US + 540 * MINUTE_US]"
  using filter_future_slots_today [of 738887 "738887 * DAY_US + 845 * MINUTE_US"
          "[738887 * DAY_US + 840 * MINUTE_US, 738887 * DAY_US + 845 * MINUTE_US,
            738887 * DAY_US + 850 * MINUTE_US]"]
        filter_future_slots_today [of 738888 "738887 * DAY_US + 845 * MINUTE_US"
          "[738888 * DAY_US + 540 * MINUTE_US]"]
  by (simp add: date_of_def DAY_US_def MINUTE_US_def)

text \<open>
  C9. The output of the filter is a subsequence of its input, and for every date other
  than the calendar date of \<open>now\<close>, a past date included, the output is the input.
\<close>

theorem filter_future_slots_subseq:
  "subseq (filter_future_slots now date_obj slots) slots
   \<and> (date_obj \<noteq> date_of now \<longrightarrow> filter_future_slots now date_obj slots = slots)"
  by (auto simp: filter_future_slots_def)

theorem filter_future_slots_subseq_witness:
  "738880 \<noteq> date_of (738887 * DAY_US + 845 * MINUTE_US)
   \<and> filter_future_slots (738887 * DAY_US + 845 * MINUTE_US) 738880
        [738880 * DAY_US + 540 * MINUTE_US] = [738880 * DAY_US + 540 * MINUTE_US]
   \<and> subseq (filter_future_slots (738887 * DAY_US + 845 * MINUTE_US) 738887
                [738887 * DAY_US + 840 * MINUTE_US, 738887 * DAY_US + 850 * MINUTE_US])
             [738887 * DAY_US + 840 * MINUTE_US, 738887 * DAY_US + 850 * MINUTE_US]"
  using filter_future_slots_subseq [of "738887 * DAY_US + 845 * MINUTE_US" 738880
          "[738880 * DAY_US + 540 * MINUTE_US]"]
        filter_future_slots_subseq [of "738887 * DAY_US + 845 * MINUTE_US" 738887
          "[738887 * DAY_US + 840 * MINUTE_US, 738887 * DAY_US + 850 * MINUTE_US]"]
  by (simp add: date_of_def DAY_US_def MINUTE_US_def)

section \<open>Duration and price of a selection\<close>

text \<open>
  C8, as stated, fails on 64-bit columns: two matching rows of \<open>2^62\<close> minutes each
  have the sum \<open>2^63\<close>, and \<open>calc_duracion\<close> returns \<open>- 2^63\<close>.
\<close>

theorem calc_duracion_overflow_counterexample:
  "calc_duracion
     [\<lparr>tipo = ''L'', zona = ''a'', duracion_min = 4611686018427387904, precio = 0\<rparr>,
      \<lparr>tipo = ''L'', zona = ''b'', duracion_min = 4611686018427387904, precio = 0\<rparr>]
     ''L'' [''a'', ''b'']
   = - 9223372036854775808
   \<and> sint (4611686018427387904 :: 64 word) + sint (4611686018427387904 :: 64 word) = 9223372036854775808"
  by (simp add: calc_duracion_def)

text \<open>
  C8, amended. Over the rows whose type is the chosen one and whose zone is among the
  chosen zones, \<open>calc_duracion\<close> and \<open>calc_precio\<close> return the sum of the durations
  and of the prices whenever that sum fits a signed 64-bit integer; when no row matches,
  or the catalog is empty, both return 0.
\<close>

theorem calc_totals:
  fixes servicios_df :: "servicio list" and tp :: string and zonas :: "string list"
  defines "sel \<equiv> filter (\<lambda>r. tipo r = tp \<and> zona r \<in> set zonas) servicios_df"
  shows "(- (2 ^ 63) \<le> (\<Sum>r\<leftarrow>sel. sint (duracion_min r)) \<and> (\<Sum>r\<leftarrow>sel. sint (duracion_min r)) < 2 ^ 63
            \<longrightarrow> calc_duracion servicios_df tp zonas = (\<Sum>r\<leftarrow>sel. sint (duracion_min r)))
       \<and> (- (2 ^ 63) \<le> (\<Sum>r\<leftarrow>sel. sint (precio r)) \<and> (\<Sum>r\<leftarrow>sel. sint (precio r)) < 2 ^ 63
            \<longrightarrow> calc_precio servicios_df tp zonas = (\<Sum>r\<leftarrow>sel. sint (precio r)))
       \<and> (sel = [] \<longrightarrow> calc_duracion servicios_df tp zonas = 0 \<and> calc_precio servicios_df tp zonas = 0)"
proof (intro conjI impI)
  assume "- (2 ^ 63) \<le> (\<Sum>r\<leftarrow>sel. sint (duracion_min r)) \<and> (\<Sum>r\<leftarrow>sel. sint (duracion_min r)) < 2 ^ 63"
  then have "sint (sum_list (map duracion_min sel)) = (\<Sum>r\<leftarrow>sel. sint (duracion_min r))"
    using sint_sum_list_in_range [of duracion_min sel] by simp
  then show "calc_duracion servicios_df tp zonas = (\<Sum>r\<leftarrow>sel. sint (duracion_min r))"
    by (cases "sel = []") (auto simp: calc_duracion_def sel_def Let_def)
next
  assume "- (2 ^ 63) \<le> (\<Sum>r\<leftarrow>sel. sint (precio r)) \<and> (\<Sum>r\<leftarrow>sel. sint (precio r)) < 2 ^ 63"
  then have "sint (sum_list (map precio sel)) = (\<Sum>r\<leftarrow>sel. sint (precio r))"
    using sint_sum_list_in_range [of precio sel] by simp
  then show "calc_precio servicios_df tp zonas = (\<Sum>r\<leftarrow>sel. sint (precio r))"
    by (cases "sel = []") (auto simp: calc_precio_def sel_def Let_def)
next
  assume "sel = []"
  then show "calc_duracion servicios_df tp zonas = 0"
    by (simp add: calc_duracion_def sel_def)
next
  assume "sel = []"
  then show "calc_precio servicios_df tp zonas = 0"
    by (simp add: calc_precio_def sel_def)
qed

theorem calc_totals_witness:
  "calc_duracion
     [\<lparr>tipo = ''Laser'', zona = ''Axilas'', duracion_min = 30, precio = 1000\<rparr>,
      \<lparr>tipo = ''Laser'', zona = ''Rostro'', duracion_min = 45, precio = 2000\<rparr>,
      \<lparr>tipo = ''Cera'', zona = ''Axilas'', duracion_min = 20, precio = 500\<rparr>]
     ''Laser'' [''Axilas'', ''Rostro''] = 75
   \<and> calc_precio
     [\<lparr>tipo = ''Laser'', zona = ''Axilas'', duracion_min = 30, precio = 1000\<rparr>,
      \<lparr>tipo = ''Laser'', zona = ''Rostro'', duracion_min = 45, precio = 2000\<rparr>,
      \<lparr>tipo = ''Cera'', zona = ''Axilas'', duracion_min = 20, precio = 500\<rparr>]
     ''Laser'' [''Axilas'', ''Rostro''] = 3000
   \<and> calc_duracion
     [\<lparr>tipo = ''Cera'', zona = ''Axilas'', duracion_min = 20, precio = 500\<rparr>]
     ''Laser'' [''Axilas''] = 0
   \<and> calc_precio
     [\<lparr>tipo = ''Cera'', zona = ''Axilas'', duracion_min = 20, precio = 500\<rparr>]
     ''Laser'' [''Axilas''] = 0"
  using calc_totals [where servicios_df =
          "[\<lparr>tipo = ''Laser'', zona = ''Axilas'', duracion_min = 30, precio = 1000\<rparr>,
            \<lparr>tipo = ''Laser'', zona = ''Rostro'', duracion_min = 45, precio = 2000\<rparr>,
            \<lparr>tipo = ''Cera'', zona = ''Axilas'', duracion_min = 20, precio = 500\<rparr>]"
          and tp = "''Laser''" and zonas = "[''Axilas'', ''Rostro'']"]
        calc_totals [where servicios_df =
          "[\<lparr>tipo = ''Cera'', zona = ''Axilas'', duracion_min = 20, precio = 500\<rparr>]"
          and tp = "''Laser''" and zonas = "[''Axilas'']"]
  by simp

end
